theory Spec2Isabelle
  imports Main "HOL-Library.AList"
begin

section \<open>Targets, the registry and the process state\<close>

text \<open>
  The build engine of \<^verbatim>\<open>src/cli.js\<close> (its second part, the Target module) keeps a
  process-wide object \<^verbatim>\<open>all_targets\<close>, fills it through \<^verbatim>\<open>target()\<close>, and
  \<^verbatim>\<open>evaluate()\<close> picks the requested targets with their dependencies and runs their
  actions one after the other, switching the working directory for targets that ask for it.

  A value that is thrown or that rejects a promise is an \<^verbatim>\<open>Error\<close> object with a message,
  or a \<^verbatim>\<open>TypeError\<close> the engine raises (destructuring \<^verbatim>\<open>undefined\<close>, reading a property
  of \<^verbatim>\<open>undefined\<close>); the wording of the engine's message is not modelled.
  An action is user code: it is called with no argument while some working directory is in
  effect, and either returns (a plain value or a promise that fulfils), throws
  synchronously, returns a promise that rejects, or returns a promise that never settles.
  It may move the working directory itself, so it also yields the directory it leaves
  behind. Actions that register targets or call \<^verbatim>\<open>evaluate\<close> themselves are outside
  this model.

  A promise ends fulfilled with a value or rejected with a reason, or it stays pending for
  ever.
\<close>

datatype js_error = Error (message: string) | TypeError

datatype outcome = Returns | Throws js_error | Rejects js_error | Never_settles

datatype 'a promise = Fulfilled 'a | Rejected js_error | Pending

type_synonym action = "string \<Rightarrow> outcome \<times> string"

record TargetOptionsType =
  target_path :: "string option"
  interactive :: "bool option"

record TargetType =
  name :: string
  depends :: "string list"
  action :: action
  options :: TargetOptionsType

text \<open>
  \<^verbatim>\<open>all_targets\<close> is an object used as a dictionary. Its own properties are an
  association list in the order in which the keys were created (assigning to an existing
  key keeps its place). Behind them stands its prototype: \<^verbatim>\<open>Object.prototype\<close> at first,
  and, once a target named \<^verbatim>\<open>__proto__\<close> has been registered, that target's record, whose
  own prototype is \<^verbatim>\<open>Object.prototype\<close>. A record that got there always has the name
  \<^verbatim>\<open>__proto__\<close>; the state keeps its three other properties.
\<close>

type_synonym registry = "(string \<times> TargetType) list"

type_synonym replaced_prototype = "string list \<times> action \<times> TargetOptionsType"

definition prototype_target :: "replaced_prototype \<Rightarrow> TargetType" where
  "prototype_target p =
     (case p of (ds, a, opts) \<Rightarrow> \<lparr>name = ''__proto__'', depends = ds, action = a, options = opts\<rparr>)"

text \<open>
  The state of the process: the own properties of \<^verbatim>\<open>all_targets\<close>, its prototype when it
  has been replaced, the working directory, and a trace that is not in the source and only
  observes it: one entry per call \<^verbatim>\<open>target.action()\<close>, holding the target's name and the
  working directory in effect at the call.
\<close>

record process =
  all_targets :: registry
  prototype :: "replaced_prototype option"
  cwd :: string
  invoked :: "(string \<times> string) list"

text \<open>
  \<^verbatim>\<open>process.chdir\<close> belongs to the platform: from the directory in effect and its
  argument it gives the new working directory, or throws (the directory does not exist).
  It is a parameter of the executor, for the switch to \<^verbatim>\<open>target_path\<close> and for the way
  back to \<^verbatim>\<open>current_dir\<close> alike.
\<close>

type_synonym chdir = "string \<Rightarrow> string \<Rightarrow> js_error + string"

section \<open>Registration\<close>

text \<open>
  The argument object of \<^verbatim>\<open>target()\<close>: \<^verbatim>\<open>name\<close>, and the three properties that may be
  absent and then take the defaults \<^verbatim>\<open>[]\<close>, \<^verbatim>\<open>{}\<close> and \<^verbatim>\<open>function() {}\<close>. The
  parameter is a destructuring pattern without a default of its own: a call without an
  argument object (\<^verbatim>\<open>target()\<close>, \<^verbatim>\<open>target(undefined)\<close>, \<^verbatim>\<open>target(null)\<close>, here
  \<open>None\<close>) makes the engine raise a \<^verbatim>\<open>TypeError\<close>, and as the function is \<^verbatim>\<open>async\<close>
  the promise it returns rejects before anything is stored.

  \<^verbatim>\<open>all_targets[rtn.name] = rtn\<close> creates or overwrites an own property, except for the
  name \<^verbatim>\<open>__proto__\<close>: that one is an accessor of \<^verbatim>\<open>Object.prototype\<close>, and the assignment
  makes the record the prototype of \<^verbatim>\<open>all_targets\<close> instead of storing it under a key.
\<close>

record TargetArgs =
  given_name :: string
  given_depends :: "string list option"
  given_options :: "TargetOptionsType option"
  given_action :: "action option"

definition empty_options :: TargetOptionsType where
  "empty_options = \<lparr>target_path = None, interactive = None\<rparr>"

definition empty_action :: action where
  "empty_action dir = (Returns, dir)"

definition target :: "TargetArgs option \<Rightarrow> process \<Rightarrow> TargetType promise \<times> process" where
  "target argument s =
     (case argument of
        None \<Rightarrow> (Rejected TypeError, s)
      | Some args \<Rightarrow>
          (let rtn = \<lparr>name = given_name args,
                      depends = (case given_depends args of None \<Rightarrow> [] | Some ds \<Rightarrow> ds),
                      action = (case given_action args of None \<Rightarrow> empty_action | Some a \<Rightarrow> a),
                      options = (case given_options args of None \<Rightarrow> empty_options | Some opts \<Rightarrow> opts)\<rparr>
           in (Fulfilled rtn,
               if name rtn = ''__proto__''
               then s\<lparr>prototype := Some (depends rtn, action rtn, options rtn)\<rparr>
               else s\<lparr>all_targets := AList.update (name rtn) rtn (all_targets s)\<rparr>)))"

section \<open>The keys and the properties of the registry\<close>

text \<open>
  \<^verbatim>\<open>Object.keys\<close> lists the own keys: those that are array indices (canonical decimal
  numerals below \<open>2^32 - 1\<close>) first, in ascending numeric order, and then all other keys in
  the order of their creation.
\<close>

definition is_digit :: "char \<Rightarrow> bool" where
  "is_digit c = (c \<in> set ''0123456789'')"

definition decimal_value :: "string \<Rightarrow> int" where
  "decimal_value s = foldl (\<lambda>n c. 10 * n + (of_char c - 48)) 0 s"

definition is_array_index :: "string \<Rightarrow> bool" where
  "is_array_index s =
     (s \<noteq> [] \<and> list_all is_digit s \<and> (if hd s = CHR ''0'' then s = ''0'' else True)
      \<and> decimal_value s < 2 ^ 32 - 1)"

definition object_keys :: "registry \<Rightarrow> string list" where
  "object_keys reg =
     sort_key decimal_value (filter is_array_index (map fst reg))
     @ filter (\<lambda>key. \<not> is_array_index key) (map fst reg)"

text \<open>
  \<^verbatim>\<open>all_targets[target_name]\<close> looks among the own properties first and then along the
  prototype chain. What the picker can tell apart in the value it gets: a target record;
  some other value that is truthy but has no \<^verbatim>\<open>depends\<close> (a method of
  \<^verbatim>\<open>Object.prototype\<close>, \<^verbatim>\<open>Object.prototype\<close> itself under \<^verbatim>\<open>__proto__\<close>, or a property of
  the record that has become the prototype: its name, its array of dependencies, its
  action, its options); or \<^verbatim>\<open>undefined\<close>.
\<close>

datatype property = Target_value TargetType | Other_value | No_value

definition object_prototype_names :: "string list" where
  "object_prototype_names =
     [''constructor'', ''__defineGetter__'', ''__defineSetter__'', ''hasOwnProperty'',
      ''__lookupGetter__'', ''__lookupSetter__'', ''isPrototypeOf'', ''propertyIsEnumerable'',
      ''toString'', ''valueOf'', ''__proto__'', ''toLocaleString'']"

definition target_property_names :: "string list" where
  "target_property_names = [''name'', ''depends'', ''action'', ''options'']"

definition get_property :: "replaced_prototype option \<Rightarrow> registry \<Rightarrow> string \<Rightarrow> property" where
  "get_property proto reg key =
     (case map_of reg key of
        Some tgt \<Rightarrow> Target_value tgt
      | None \<Rightarrow>
          (case proto of
             None \<Rightarrow> if key \<in> set object_prototype_names then Other_value else No_value
           | Some p \<Rightarrow>
               if key = ''__proto__'' then Target_value (prototype_target p)
               else if key \<in> set target_property_names then Other_value
               else if key \<in> set object_prototype_names then Other_value
               else No_value))"

section \<open>Picking a target and its dependencies\<close>

text \<open>
  Two measures for the termination of the picker, on the arguments of its two functions:
  the number of names that can hold a target (the own keys and \<^verbatim>\<open>__proto__\<close>) and are not
  yet picked, and the length of the list a loop still has to go through. Every call that
  goes deeper adds such a name to \<open>picked\<close>, and no call removes one.
\<close>

definition target_holders :: "registry \<Rightarrow> string set" where
  "target_holders reg = insert ''__proto__'' (fst ` set reg)"

definition unpicked ::
  "replaced_prototype option \<times> registry \<times> string \<times> string set
   + replaced_prototype option \<times> registry \<times> string list \<times> string set \<Rightarrow> nat" where
  "unpicked x =
     (case x of
        Inl (proto, reg, n, picked) \<Rightarrow> card (target_holders reg - picked)
      | Inr (proto, reg, ns, picked) \<Rightarrow> card (target_holders reg - picked))"

definition still_to_visit ::
  "replaced_prototype option \<times> registry \<times> string \<times> string set
   + replaced_prototype option \<times> registry \<times> string list \<times> string set \<Rightarrow> nat" where
  "still_to_visit x =
     (case x of Inl (proto, reg, n, picked) \<Rightarrow> 0 | Inr (proto, reg, ns, picked) \<Rightarrow> Suc (length ns))"

text \<open>
  \<^verbatim>\<open>pick_target_and_dependencies\<close> reads \<^verbatim>\<open>all_targets\<close> and mutates the set
  \<^verbatim>\<open>picked\<close> that its caller shares among all calls, so the set is passed in and
  returned. \<open>pick_each\<close> is the \<^verbatim>\<open>forEach\<close> loop that pushes the result of each call, as
  it stands in the function itself (over \<^verbatim>\<open>target.depends\<close>) and in \<^verbatim>\<open>evaluate\<close>
  (over the selected keys). A \<^verbatim>\<open>throw\<close> leaves both loops at once. For a truthy value
  that is no target record, \<^verbatim>\<open>target.depends\<close> is \<^verbatim>\<open>undefined\<close> and the call of its
  \<^verbatim>\<open>forEach\<close> raises a \<^verbatim>\<open>TypeError\<close>.
\<close>

function (domintros)
  pick_target_and_dependencies ::
    "replaced_prototype option \<Rightarrow> registry \<Rightarrow> string \<Rightarrow> string set
      \<Rightarrow> js_error + (TargetType list \<times> string set)"
  and pick_each ::
    "replaced_prototype option \<Rightarrow> registry \<Rightarrow> string list \<Rightarrow> string set
      \<Rightarrow> js_error + (TargetType list \<times> string set)"
where
  "pick_target_and_dependencies proto reg target_name picked =
     (case get_property proto reg target_name of
        Target_value tgt \<Rightarrow>
          if target_name \<notin> picked then
            (case pick_each proto reg (depends tgt) (insert target_name picked) of
               Inl e \<Rightarrow> Inl e
             | Inr (rtn, picked') \<Rightarrow> Inr (rtn @ [tgt], picked'))
          else Inr ([], picked)
      | Other_value \<Rightarrow>
          if target_name \<notin> picked then Inl TypeError else Inr ([], picked)
      | No_value \<Rightarrow> Inl (Error (''don't know how to build '' @ target_name)))"
| "pick_each proto reg [] picked = Inr ([], picked)"
| "pick_each proto reg (dependency # rest) picked =
     (case pick_target_and_dependencies proto reg dependency picked of
        Inl e \<Rightarrow> Inl e
      | Inr (rtn, picked') \<Rightarrow>
          (case pick_each proto reg rest picked' of
             Inl e \<Rightarrow> Inl e
           | Inr (others, picked'') \<Rightarrow> Inr (rtn @ others, picked'')))"
  by pat_completeness auto
termination
proof -
  have grows:
    "pick_target_and_dependencies_pick_each_dom (Inl (proto, reg, n, P)) \<Longrightarrow>
       pick_target_and_dependencies proto reg n P = Inr (r, P') \<Longrightarrow> P \<subseteq> P'"
    "pick_target_and_dependencies_pick_each_dom (Inr (proto, reg, ns, P)) \<Longrightarrow>
       pick_each proto reg ns P = Inr (r, P') \<Longrightarrow> P \<subseteq> P'"
    for proto reg n ns P r P'
  proof (induction proto reg n P and proto reg ns P arbitrary: r P' and r P'
      rule: pick_target_and_dependencies_pick_each.pinduct)
    case (1 proto reg target_name picked)
    note eq = 1(3)[unfolded pick_target_and_dependencies.psimps[OF 1(1)]]
    show ?case
    proof (cases "get_property proto reg target_name")
      case (Target_value tgt)
      show ?thesis
      proof (cases "target_name \<in> picked")
        case True
        with eq Target_value show ?thesis by simp
      next
        case False
        with eq Target_value obtain rd where
          "pick_each proto reg (depends tgt) (insert target_name picked) = Inr (rd, P')"
          by (auto split: sum.splits prod.splits)
        from 1(2)[OF Target_value False this] show ?thesis by blast
      qed
    next
      case Other_value
      with eq show ?thesis by (simp split: if_splits)
    next
      case No_value
      with eq show ?thesis by simp
    qed
  next
    case (2 proto reg picked)
    then show ?case by (simp add: pick_each.psimps)
  next
    case (3 proto reg dependency rest picked)
    from 3(1) 3(4) obtain r1 P1 r2 where
      a: "pick_target_and_dependencies proto reg dependency picked = Inr (r1, P1)" and
      b: "pick_each proto reg rest P1 = Inr (r2, P')"
      by (auto simp: pick_each.psimps split: sum.splits prod.splits)
    from 3(2)[OF a] have "picked \<subseteq> P1" .
    moreover from 3(3)[OF a refl b] have "P1 \<subseteq> P'" .
    ultimately show ?case by blast
  qed
  have holder: "n \<in> target_holders reg"
    if "get_property proto reg n = Target_value t" for proto reg n t
    using that
    by (auto simp: target_holders_def get_property_def dom_map_of_conv_image_fst[symmetric]
        split: option.splits if_splits)
  have fewer: "card (K - insert x P) < card (K - P)"
    if "finite K" "x \<in> K" "x \<notin> P" for K P :: "string set" and x
    using that by (intro psubset_card_mono) auto
  have no_more: "card (K - P') \<le> card (K - P)"
    if "finite K" "P \<subseteq> P'" for K P P' :: "string set"
    using that by (intro card_mono) auto
  have fin: "finite (target_holders reg)" for reg
    by (simp add: target_holders_def)
  show ?thesis
  proof (relation "unpicked <*mlex*> measure still_to_visit", goal_cases)
    case 1
    show ?case by (intro wf_mlex wf_measure)
  next
    case (2 proto reg target_name picked x1)
    from fewer[OF fin[of reg] holder[OF 2(1)] 2(2)]
    show ?case by (intro mlex_less) (simp add: unpicked_def)
  next
    case (3 proto reg dependency rest picked)
    show ?case by (intro mlex_leq) (simp_all add: unpicked_def still_to_visit_def)
  next
    case (4 proto reg dependency rest picked x2 x y)
    from 4(1,2) have "pick_target_and_dependencies proto reg dependency picked = Inr (x, y)"
      by simp
    from grows(1)[OF 4(3) this] have "picked \<subseteq> y" .
    from no_more[OF fin[of reg] this]
    show ?case by (intro mlex_leq) (simp_all add: unpicked_def still_to_visit_def)
  qed
qed

section \<open>Evaluation\<close>

text \<open>
  The first half of \<^verbatim>\<open>evaluate\<close>: the keys of the registry, filtered by the requested
  names (all of them when none is requested), are picked in that order with one shared,
  initially empty set \<^verbatim>\<open>picked\<close>. The code runs inside a promise executor, so a
  \<^verbatim>\<open>throw\<close> rejects the promise \<^verbatim>\<open>evaluate\<close> returns. \<open>required_with\<close> is the list
  \<^verbatim>\<open>required\<close> of the code for a given prototype of \<^verbatim>\<open>all_targets\<close>, and \<open>required\<close>
  is that list while the prototype is the one \<^verbatim>\<open>all_targets\<close> was created with.
\<close>

definition selected :: "registry \<Rightarrow> string list \<Rightarrow> string list" where
  "selected reg target_names =
     filter (\<lambda>key. length target_names = 0 \<or> key \<in> set target_names) (object_keys reg)"

definition required_with ::
  "replaced_prototype option \<Rightarrow> registry \<Rightarrow> string list \<Rightarrow> js_error + TargetType list" where
  "required_with proto reg target_names =
     (case pick_each proto reg (selected reg target_names) {} of
        Inl e \<Rightarrow> Inl e
      | Inr (rtn, picked) \<Rightarrow> Inr rtn)"

definition required :: "registry \<Rightarrow> string list \<Rightarrow> js_error + TargetType list" where
  "required reg target_names = required_with None reg target_names"

text \<open>
  One link of the promise chain. \<^verbatim>\<open>target.options.target_path\<close> counts when it is
  truthy: present and not the empty string. The executor of the link's promise reads the
  working directory, switches it, and calls the action; an exception of \<^verbatim>\<open>process.chdir\<close>
  or of the action leaves the executor at once and rejects the promise.

  When the action has returned, two handlers are attached to its promise. The first runs
  when it fulfils: it goes back to \<^verbatim>\<open>current_dir\<close> and fulfils the link with the target.
  The second runs when the action's promise rejects, and also when the first handler has
  thrown: it goes back to \<^verbatim>\<open>current_dir\<close> and rejects the link with the reason it was
  given. Each calls \<^verbatim>\<open>process.chdir\<close> before it settles the link, so when that call throws
  in the second handler nothing settles the link any more. While the action's promise is
  pending no handler runs, and the link stays pending with it.
\<close>

definition truthy_target_path :: "TargetType \<Rightarrow> string option" where
  "truthy_target_path tgt =
     (case target_path (options tgt) of
        None \<Rightarrow> None
      | Some p \<Rightarrow> if p = [] then None else Some p)"

definition enter_target_path :: "chdir \<Rightarrow> TargetType \<Rightarrow> string \<Rightarrow> js_error + string" where
  "enter_target_path chdir tgt current_dir =
     (case truthy_target_path tgt of
        None \<Rightarrow> Inr current_dir
      | Some p \<Rightarrow> chdir current_dir p)"

definition leave_target_path :: "chdir \<Rightarrow> TargetType \<Rightarrow> string \<Rightarrow> string \<Rightarrow> js_error + string" where
  "leave_target_path chdir tgt current_dir dir =
     (case truthy_target_path tgt of
        None \<Rightarrow> Inr dir
      | Some p \<Rightarrow> chdir dir current_dir)"

definition on_rejected ::
  "chdir \<Rightarrow> TargetType \<Rightarrow> string \<Rightarrow> js_error \<Rightarrow> process \<Rightarrow> TargetType promise \<times> process" where
  "on_rejected chdir tgt current_dir error s =
     (case leave_target_path chdir tgt current_dir (cwd s) of
        Inl e \<Rightarrow> (Pending, s)
      | Inr dir \<Rightarrow> (Rejected error, s\<lparr>cwd := dir\<rparr>))"

definition on_fulfilled ::
  "chdir \<Rightarrow> TargetType \<Rightarrow> string \<Rightarrow> process \<Rightarrow> TargetType promise \<times> process" where
  "on_fulfilled chdir tgt current_dir s =
     (case leave_target_path chdir tgt current_dir (cwd s) of
        Inl e \<Rightarrow> on_rejected chdir tgt current_dir e s
      | Inr dir \<Rightarrow> (Fulfilled tgt, s\<lparr>cwd := dir\<rparr>))"

definition run_target :: "chdir \<Rightarrow> TargetType \<Rightarrow> process \<Rightarrow> TargetType promise \<times> process" where
  "run_target chdir tgt s =
     (let current_dir = cwd s in
      case enter_target_path chdir tgt current_dir of
        Inl e \<Rightarrow> (Rejected e, s)
      | Inr dir \<Rightarrow>
          (let called = s\<lparr>cwd := dir, invoked := invoked s @ [(name tgt, dir)]\<rparr> in
           case action tgt dir of
             (Throws e, dir') \<Rightarrow> (Rejected e, called\<lparr>cwd := dir'\<rparr>)
           | (Returns, dir') \<Rightarrow> on_fulfilled chdir tgt current_dir (called\<lparr>cwd := dir'\<rparr>)
           | (Rejects e, dir') \<Rightarrow> on_rejected chdir tgt current_dir e (called\<lparr>cwd := dir'\<rparr>)
           | (Never_settles, dir') \<Rightarrow> (Pending, called\<lparr>cwd := dir'\<rparr>)))"

text \<open>
  The chain: each link starts when the one before has fulfilled; a rejected link skips all
  later ones, and behind a pending link nothing starts. The chain's value is the last
  target run, or \<^verbatim>\<open>undefined\<close> (\<open>None\<close>) when nothing was required.
\<close>

fun task_chain ::
  "chdir \<Rightarrow> TargetType list \<Rightarrow> TargetType option \<Rightarrow> process
    \<Rightarrow> TargetType option promise \<times> process" where
  "task_chain chdir [] results s = (Fulfilled results, s)"
| "task_chain chdir (tgt # rest) results s =
     (case run_target chdir tgt s of
        (Rejected e, s') \<Rightarrow> (Rejected e, s')
      | (Pending, s') \<Rightarrow> (Pending, s')
      | (Fulfilled done, s') \<Rightarrow> task_chain chdir rest (Some done) s')"

definition target_names_or_default :: "string list option \<Rightarrow> string list" where
  "target_names_or_default target_names = (case target_names of None \<Rightarrow> [] | Some ns \<Rightarrow> ns)"

definition evaluate ::
  "chdir \<Rightarrow> string list option \<Rightarrow> process \<Rightarrow> TargetType option promise \<times> process" where
  "evaluate chdir target_names s =
     (case required_with (prototype s) (all_targets s) (target_names_or_default target_names) of
        Inl e \<Rightarrow> (Rejected e, s)
      | Inr rtn \<Rightarrow> task_chain chdir rtn None s)"

section \<open>Notions used in the statements\<close>

text \<open>
  \<open>dep_rel\<close> is the dependency relation the registry declares: \<open>(a, b)\<close> when the target
  registered under \<open>a\<close> lists \<open>b\<close> in its \<^verbatim>\<open>depends\<close> (whether \<open>b\<close> is registered or
  not). \<open>dep_rel_with\<close> is the same relation when the target held by \<^verbatim>\<open>__proto__\<close> is
  counted in. \<open>picker_error\<close> is what the picker throws at a name that holds no target:
  its own error for a name without any property, the engine's \<^verbatim>\<open>TypeError\<close> for a name
  the prototype chain gives some other value. \<open>keyed_by_name\<close> is the invariant that \<^verbatim>\<open>all_targets[rtn.name] = rtn\<close>
  keeps: every target sits under its own name. \<open>invoked_since\<close> reads from the trace the
  names of the targets whose action was called between two states, in the order of the
  calls.
\<close>

definition dep_rel :: "registry \<Rightarrow> (string \<times> string) set" where
  "dep_rel reg = {(a, b). \<exists>t. map_of reg a = Some t \<and> b \<in> set (depends t)}"

definition dep_rel_with :: "replaced_prototype option \<Rightarrow> registry \<Rightarrow> (string \<times> string) set" where
  "dep_rel_with proto reg =
     {(a, b). \<exists>t. get_property proto reg a = Target_value t \<and> b \<in> set (depends t)}"


definition keyed_by_name :: "registry \<Rightarrow> bool" where
  "keyed_by_name reg = list_all (\<lambda>(key, tgt). name tgt = key) reg"

definition invoked_since :: "process \<Rightarrow> process \<Rightarrow> string list" where
  "invoked_since s s' = map fst (drop (length (invoked s)) (invoked s'))"

section \<open>Example registries\<close>

text \<open>
  Concrete inputs at which the statements below are instantiated: a process that has
  registered nothing yet, registration of a list of argument objects in order, argument objects that
  give only a name and dependencies, and a \<^verbatim>\<open>process.chdir\<close> that accepts every path,
  going to an absolute one and appending a relative one.
\<close>

definition fresh :: process where
  "fresh = \<lparr>all_targets = [], prototype = None, cwd = ''/work'', invoked = []\<rparr>"

definition register_all :: "TargetArgs list \<Rightarrow> process \<Rightarrow> process" where
  "register_all args s = fold (\<lambda>a s'. snd (target (Some a) s')) args s"

definition plain :: "string \<Rightarrow> string list \<Rightarrow> TargetArgs" where
  "plain n ds = \<lparr>given_name = n, given_depends = Some ds, given_options = None, given_action = None\<rparr>"

definition join_dir :: chdir where
  "join_dir dir p = Inr (if take 1 p = ''/'' then p else dir @ ''/'' @ p)"

definition plain_target :: "string \<Rightarrow> string list \<Rightarrow> TargetType" where
  "plain_target n ds = \<lparr>name = n, depends = ds, action = empty_action, options = empty_options\<rparr>"

text \<open>Two targets, the second depending on the first; and two targets depending on each other.\<close>

definition two_targets :: process where
  "two_targets = register_all [plain ''A'' [], plain ''B'' [''A'']] fresh"



definition dangling :: process where
  "dangling = register_all [plain ''A'' [''X'']] fresh"

text \<open>
  Two roots \<open>A\<close> and \<open>B\<close> that share the dependency \<open>S\<close>, which \<open>A\<close> lists after
  another one.
\<close>

definition crossing :: process where
  "crossing = register_all
     [plain ''A'' [''X'', ''S''], plain ''B'' [''S''], plain ''X'' [], plain ''S'' []] fresh"

text \<open>
  Actions that fail, by a synchronous \<^verbatim>\<open>throw\<close> and by a promise that rejects; a single
  target with \<^verbatim>\<open>target_path: "sub"\<close> and a given action; and three targets of which the
  middle one rejects.
\<close>

definition throwing :: action where
  "throwing dir = (Throws (Error ''boom''), dir)"

definition rejecting :: action where
  "rejecting dir = (Rejects (Error ''boom''), dir)"

definition in_sub :: "action \<Rightarrow> process" where
  "in_sub a = register_all
     [\<lparr>given_name = ''A'', given_depends = None,
       given_options = Some \<lparr>target_path = Some ''sub'', interactive = None\<rparr>,
       given_action = Some a\<rparr>] fresh"







text \<open>
  A target registered under \<^verbatim>\<open>__proto__\<close> after a target that depends on that name; and
  registrations under names of which two are array indices.
\<close>

definition replaced :: process where
  "replaced = register_all [plain ''A'' [''__proto__''], plain ''__proto__'' []] fresh"

definition numbered :: process where
  "numbered = register_all [plain ''b'' [], plain ''10'' [], plain ''a'' [], plain ''2'' []] fresh"

section \<open>The registry invariant\<close>

lemma dep_relI: "map_of reg a = Some t \<Longrightarrow> b \<in> set (depends t) \<Longrightarrow> (a, b) \<in> dep_rel reg"
  by (auto simp: dep_rel_def)


lemma keyed_by_nameD: "keyed_by_name reg \<Longrightarrow> map_of reg k = Some t \<Longrightarrow> name t = k"
  by (auto simp: keyed_by_name_def list_all_iff dest!: map_of_SomeD)

lemma keyed_by_name_empty: "keyed_by_name []"
  by (simp add: keyed_by_name_def)

lemma keyed_by_name_update:
  "keyed_by_name reg \<Longrightarrow> name t = k \<Longrightarrow> keyed_by_name (AList.update k t reg)"
  by (induction reg) (auto simp: keyed_by_name_def)

lemma keyed_by_name_target:
  "keyed_by_name (all_targets s) \<Longrightarrow> keyed_by_name (all_targets (snd (target argument s)))"
  by (cases argument) (simp_all add: target_def Let_def keyed_by_name_update)

lemma prototype_key_target:
  "''__proto__'' \<notin> fst ` set (all_targets s) \<Longrightarrow>
     ''__proto__'' \<notin> fst ` set (all_targets (snd (target argument s)))"
  by (cases argument) (auto simp: target_def Let_def dom_update)

lemma distinct_keys_target:
  "distinct (map fst (all_targets s)) \<Longrightarrow>
     distinct (map fst (all_targets (snd (target argument s))))"
  by (cases argument) (simp_all add: target_def Let_def distinct_update)

section \<open>Properties of the registry object\<close>




lemma prototype_target_name: "name (prototype_target p) = ''__proto__''"
  by (cases p) (simp add: prototype_target_def)

lemma target_value_name:
  "keyed_by_name reg \<Longrightarrow> get_property proto reg k = Target_value t \<Longrightarrow> name t = k"
  by (auto simp: get_property_def prototype_target_name
      split: option.splits if_splits dest: keyed_by_nameD)

section \<open>What a successful pick returns\<close>

text \<open>
  The two shapes of a successful call: the name was picked before and nothing is added, or
  the name holds a target, which is entered, its dependencies are picked, and the target
  itself comes last.
\<close>

lemma pick_cases:
  assumes "pick_target_and_dependencies proto reg n P = Inr (r, P')"
  obtains (skip) "n \<in> P" "r = []" "P' = P"
  | (visit) t rd where "get_property proto reg n = Target_value t" "n \<notin> P"
      "pick_each proto reg (depends t) (insert n P) = Inr (rd, P')" "r = rd @ [t]"
  using assms by (auto split: property.splits if_splits sum.splits)

lemma pick_each_cases:
  assumes "pick_each proto reg (d # ds) P = Inr (r, P')"
  obtains r1 P1 r2 where "pick_target_and_dependencies proto reg d P = Inr (r1, P1)"
    "pick_each proto reg ds P1 = Inr (r2, P')" "r = r1 @ r2"
  using assms by (auto split: sum.splits)

lemma pick_grows:
  "pick_target_and_dependencies proto reg n P = Inr (r, P') \<Longrightarrow> P \<subseteq> P'"
  "pick_each proto reg ns P = Inr (r, P') \<Longrightarrow> P \<subseteq> P'"
proof (induction proto reg n P and proto reg ns P arbitrary: r P' and r P'
    rule: pick_target_and_dependencies_pick_each.induct)
  case (1 proto reg target_name picked)
  from 1(2) show ?case
  proof (cases rule: pick_cases)
    case skip
    then show ?thesis by simp
  next
    case (visit t rd)
    from 1(1)[OF visit(1,2,3)] show ?thesis by blast
  qed
next
  case (2 proto reg picked)
  then show ?case by simp
next
  case (3 proto reg dependency rest picked)
  from 3(3) show ?case
  proof (cases rule: pick_each_cases)
    case (1 r1 P1 r2)
    from 3(1)[OF 1(1)] 3(2)[OF 1(1) refl 1(2)] show ?thesis by blast
  qed
qed


declare pick_target_and_dependencies.simps [simp del]

lemma pick_includes:
  "pick_target_and_dependencies proto reg n P = Inr (r, P') \<Longrightarrow> n \<in> P'"
  "pick_each proto reg ns P = Inr (r, P') \<Longrightarrow> set ns \<subseteq> P'"
proof (induction proto reg n P and proto reg ns P arbitrary: r P' and r P'
    rule: pick_target_and_dependencies_pick_each.induct)
  case (1 proto reg target_name picked)
  from 1(2) show ?case
  proof (cases rule: pick_cases)
    case skip
    then show ?thesis by simp
  next
    case (visit t rd)
    from pick_grows(2)[OF visit(3)] show ?thesis by blast
  qed
next
  case (2 proto reg picked)
  then show ?case by simp
next
  case (3 proto reg dependency rest picked)
  from 3(3) show ?case
  proof (cases rule: pick_each_cases)
    case (1 r1 P1 r2)
    from 3(1)[OF 1(1)] 3(2)[OF 1(1) refl 1(2)] pick_grows(2)[OF 1(2)]
    show ?thesis by auto
  qed
qed

lemma pick_names:
  "keyed_by_name reg \<Longrightarrow> pick_target_and_dependencies proto reg n P = Inr (r, P') \<Longrightarrow>
     P' = P \<union> set (map name r) \<and> distinct (map name r) \<and> set (map name r) \<inter> P = {}
     \<and> (\<forall>t \<in> set r. get_property proto reg (name t) = Target_value t)"
  "keyed_by_name reg \<Longrightarrow> pick_each proto reg ns P = Inr (r, P') \<Longrightarrow>
     P' = P \<union> set (map name r) \<and> distinct (map name r) \<and> set (map name r) \<inter> P = {}
     \<and> (\<forall>t \<in> set r. get_property proto reg (name t) = Target_value t)"
proof (induction proto reg n P and proto reg ns P arbitrary: r P' and r P'
    rule: pick_target_and_dependencies_pick_each.induct)
  case (1 proto reg target_name picked)
  from 1(3) show ?case
  proof (cases rule: pick_cases)
    case skip
    then show ?thesis by simp
  next
    case (visit t rd)
    have nm: "name t = target_name" using target_value_name[OF 1(2) visit(1)] .
    from 1(1)[OF visit(1,2) 1(2) visit(3)] visit(1,2,4) nm show ?thesis by auto
  qed
next
  case (2 proto reg picked)
  then show ?case by simp
next
  case (3 proto reg dependency rest picked)
  from 3(4) show ?case
  proof (cases rule: pick_each_cases)
    case (1 r1 P1 r2)
    from 3(1)[OF 3(3) 1(1)] 3(2)[OF 1(1) refl 3(3) 1(2)] 1(3)
    show ?thesis by auto
  qed
qed


lemma pick_closed:
  "pick_target_and_dependencies proto reg n P = Inr (r, P') \<Longrightarrow>
     m \<in> P' - P \<Longrightarrow> get_property proto reg m = Target_value t \<Longrightarrow> set (depends t) \<subseteq> P'"
  "pick_each proto reg ns P = Inr (r, P') \<Longrightarrow>
     m \<in> P' - P \<Longrightarrow> get_property proto reg m = Target_value t \<Longrightarrow> set (depends t) \<subseteq> P'"
proof (induction proto reg n P and proto reg ns P arbitrary: r P' and r P'
    rule: pick_target_and_dependencies_pick_each.induct)
  case (1 proto reg target_name picked)
  from 1(2) show ?case
  proof (cases rule: pick_cases)
    case skip
    with 1(3) show ?thesis by simp
  next
    case (visit t' rd)
    show ?thesis
    proof (cases "m = target_name")
      case True
      with visit(1) 1(4) have "t' = t" by simp
      with pick_includes(2)[OF visit(3)] show ?thesis by simp
    next
      case False
      with 1(3) have "m \<in> P' - insert target_name picked" by simp
      from 1(1)[OF visit(1,2,3) this 1(4)] show ?thesis .
    qed
  qed
next
  case (2 proto reg picked)
  then show ?case by simp
next
  case (3 proto reg dependency rest picked)
  from 3(3) show ?case
  proof (cases rule: pick_each_cases)
    case (1 r1 P1 r2)
    show ?thesis
    proof (cases "m \<in> P1")
      case True
      with 3(4) have "m \<in> P1 - picked" by simp
      from 3(1)[OF 1(1) this 3(5)] pick_grows(2)[OF 1(2)] show ?thesis by blast
    next
      case False
      with 3(4) have "m \<in> P' - P1" by simp
      from 3(2)[OF 1(1) refl 1(2) this 3(5)] show ?thesis .
    qed
  qed
qed

lemma pick_reach:
  "keyed_by_name reg \<Longrightarrow> pick_target_and_dependencies proto reg n P = Inr (r, P') \<Longrightarrow>
     t \<in> set r \<Longrightarrow> (n, name t) \<in> (dep_rel_with proto reg)\<^sup>*"
  "keyed_by_name reg \<Longrightarrow> pick_each proto reg ns P = Inr (r, P') \<Longrightarrow>
     t \<in> set r \<Longrightarrow> \<exists>n \<in> set ns. (n, name t) \<in> (dep_rel_with proto reg)\<^sup>*"
proof (induction proto reg n P and proto reg ns P arbitrary: r P' and r P'
    rule: pick_target_and_dependencies_pick_each.induct)
  case (1 proto reg target_name picked)
  from 1(3) show ?case
  proof (cases rule: pick_cases)
    case skip
    with 1(4) show ?thesis by simp
  next
    case (visit t' rd)
    have nm: "name t' = target_name" using target_value_name[OF 1(2) visit(1)] .
    show ?thesis
    proof (cases "t \<in> set rd")
      case True
      from 1(1)[OF visit(1,2) 1(2) visit(3) True] obtain d where
        d: "d \<in> set (depends t')" "(d, name t) \<in> (dep_rel_with proto reg)\<^sup>*" by blast
      from d(1) visit(1) have "(target_name, d) \<in> dep_rel_with proto reg" by (auto simp: dep_rel_with_def)
      from this d(2) show ?thesis by (rule converse_rtrancl_into_rtrancl)
    next
      case False
      with 1(4) visit(4) have "t = t'" by simp
      with nm show ?thesis by simp
    qed
  qed
next
  case (2 proto reg picked)
  then show ?case by simp
next
  case (3 proto reg dependency rest picked)
  from 3(4) show ?case
  proof (cases rule: pick_each_cases)
    case (1 r1 P1 r2)
    from 3(5) 1(3) have "t \<in> set r1 \<or> t \<in> set r2" by simp
    then show ?thesis
    proof
      assume "t \<in> set r1"
      from 3(1)[OF 3(3) 1(1) this] show ?thesis by simp
    next
      assume "t \<in> set r2"
      from 3(2)[OF 1(1) refl 3(3) 1(2) this] show ?thesis by auto
    qed
  qed
qed





section \<open>What the chain does to the process\<close>



lemma run_target_prototype: "prototype (snd (run_target chdir tgt s)) = prototype s"
  by (simp add: run_target_def on_fulfilled_def on_rejected_def Let_def
      split: sum.splits prod.splits outcome.splits)







section \<open>The result of picking, as evaluation sees it\<close>

lemma required_with_pick:
  "required_with proto reg ns = Inr r \<Longrightarrow>
     \<exists>P'. pick_each proto reg (selected reg ns) {} = Inr (r, P')"
  by (auto simp: required_with_def split: sum.splits)




lemma set_object_keys: "set (object_keys reg) = fst ` set reg"
  by (auto simp: object_keys_def)

lemma selected_registered: "key \<in> set (selected reg ns) \<Longrightarrow> key \<in> dom (map_of reg)"
  by (simp add: selected_def set_object_keys dom_map_of_conv_image_fst)

text \<open>
  A set of picked names is closed when it holds every dependency of every target held by
  one of its names. Picking from a closed set gives a closed set, which therefore holds
  whatever can be reached from the names picked.
\<close>

lemma pick_keeps_closed:
  assumes "pick_each proto reg ns P = Inr (r, P')"
    and "\<forall>m \<in> P. \<forall>t. get_property proto reg m = Target_value t \<longrightarrow> set (depends t) \<subseteq> P"
  shows "\<forall>m \<in> P'. \<forall>t. get_property proto reg m = Target_value t \<longrightarrow> set (depends t) \<subseteq> P'"
proof (intro ballI allI impI)
  fix m t
  assume m: "m \<in> P'" and t: "get_property proto reg m = Target_value t"
  show "set (depends t) \<subseteq> P'"
  proof (cases "m \<in> P")
    case True
    with assms(2) t pick_grows(2)[OF assms(1)] show ?thesis by blast
  next
    case False
    with m have "m \<in> P' - P" by simp
    from pick_closed(2)[OF assms(1) this t] show ?thesis .
  qed
qed

lemma closed_reaches:
  assumes "\<forall>m \<in> P. \<forall>t. get_property proto reg m = Target_value t \<longrightarrow> set (depends t) \<subseteq> P"
    and "root \<in> P" and "(root, m) \<in> (dep_rel_with proto reg)\<^sup>*"
  shows "m \<in> P"
  using assms(3)
proof (induction rule: rtrancl_induct)
  case base
  from assms(2) show ?case .
next
  case (step y z)
  from step(2) obtain t where t: "get_property proto reg y = Target_value t" "z \<in> set (depends t)"
    by (auto simp: dep_rel_with_def)
  with assms(1) step(3) show ?case by blast
qed






section \<open>Which keys are selected\<close>

lemma selected_cong:
  assumes "ns \<noteq> []" and "ns' \<noteq> []"
    and "set ns \<inter> fst ` set reg = set ns' \<inter> fst ` set reg"
  shows "selected reg ns = selected reg ns'"
proof -
  have "(key \<in> set ns) = (key \<in> set ns')" if "key \<in> set (object_keys reg)" for key
    using that assms(3) by (auto simp: set_object_keys)
  with assms(1,2) show ?thesis by (auto simp: selected_def intro: filter_cong)
qed

lemma selected_none:
  assumes "ns \<noteq> []" and "set ns \<inter> fst ` set reg = {}"
  shows "selected reg ns = []"
  using assms by (auto simp: selected_def set_object_keys filter_empty_conv)

lemma evaluate_selected:
  "selected (all_targets s) ns = selected (all_targets s) ns' \<Longrightarrow>
     evaluate chdir (Some ns) s = evaluate chdir (Some ns') s"
  by (simp add: evaluate_def required_with_def target_names_or_default_def)

lemma evaluate_nothing_selected:
  "selected (all_targets s) ns = [] \<Longrightarrow> evaluate chdir (Some ns) s = (Fulfilled None, s)"
  by (simp add: evaluate_def required_with_def target_names_or_default_def)

lemma object_keys_creation_order:
  "list_all (\<lambda>key. \<not> is_array_index key) (map fst reg) \<Longrightarrow> object_keys reg = map fst reg"
  by (simp add: object_keys_def list_all_iff filter_empty_conv)

section \<open>One link of the chain and the working directory\<close>

text \<open>
  A target with a truthy \<^verbatim>\<open>target_path\<close> whose directory switch succeeds has its
  action called in the directory \<^verbatim>\<open>process.chdir\<close> gave. When the action returns or
  its promise rejects, a handler calls \<^verbatim>\<open>process.chdir(current_dir)\<close>, and where the
  platform takes that call back to \<^verbatim>\<open>current_dir\<close> the working directory is what it was
  before the switch. When the action throws, no handler has been attached yet and the
  directory stays where the action left it.
\<close>

lemma run_target_restores:
  assumes "truthy_target_path tgt = Some p" and "chdir (cwd s) p = Inr dir"
    and "fst (action tgt dir) = Returns \<or> fst (action tgt dir) = Rejects e"
    and "chdir (snd (action tgt dir)) (cwd s) = Inr (cwd s)"
  shows "invoked (snd (run_target chdir tgt s)) = invoked s @ [(name tgt, dir)]
     \<and> cwd (snd (run_target chdir tgt s)) = cwd s"
  using assms
  by (auto simp: run_target_def on_fulfilled_def on_rejected_def enter_target_path_def
      leave_target_path_def Let_def split: prod.splits outcome.splits)

lemma run_target_thrown:
  assumes "truthy_target_path tgt = Some p" and "chdir (cwd s) p = Inr dir"
    and "action tgt dir = (Throws e, dir')"
  shows "run_target chdir tgt s
     = (Rejected e, s\<lparr>cwd := dir', invoked := invoked s @ [(name tgt, dir)]\<rparr>)"
  using assms
  by (simp add: run_target_def enter_target_path_def Let_def)




section \<open>Roots one after the other\<close>

text \<open>
  Picking a list of names is picking a first part of it and then the rest, with the names
  picked so far handed on; so the result for a list of roots is the concatenation of one
  segment per root, and the segment of a root holds what no earlier root has reached.
\<close>

lemma pick_each_append:
  "pick_each proto reg (xs @ ys) P =
     (case pick_each proto reg xs P of
        Inl e \<Rightarrow> Inl e
      | Inr (r1, P1) \<Rightarrow>
          (case pick_each proto reg ys P1 of
             Inl e \<Rightarrow> Inl e
           | Inr (r2, P2) \<Rightarrow> Inr (r1 @ r2, P2)))"
  by (induction xs arbitrary: P)
    (auto simp: pick_each.simps split: sum.splits)

lemma pick_each_single:
  "pick_target_and_dependencies proto reg n P = Inr (r, P') \<Longrightarrow>
     pick_each proto reg [n] P = Inr (r, P')"
  by (simp add: pick_each.simps)

lemma root_segment:
  assumes keyed: "keyed_by_name reg"
    and p: "pick_each proto reg (before @ root # after) {} = Inr (r, P')"
    and reach: "(root, m) \<in> (dep_rel_with proto reg)\<^sup>*"
    and first: "\<forall>b \<in> set before. (b, m) \<notin> (dep_rel_with proto reg)\<^sup>*"
  shows "\<exists>rb rd t ra.
      r = rb @ rd @ t # ra \<and> name t = root
      \<and> m \<in> set (map name (rd @ [t])) \<and> m \<notin> set (map name rb) \<and> m \<notin> set (map name ra)
      \<and> pick_each proto reg before {} = Inr (rb, set (map name rb))
      \<and> pick_target_and_dependencies proto reg root (set (map name rb))
          = Inr (rd @ [t], set (map name (rb @ rd @ [t])))"
proof -
  from p have "(case pick_each proto reg before {} of
        Inl e \<Rightarrow> Inl e
      | Inr (r1, P1) \<Rightarrow>
          (case pick_each proto reg (root # after) P1 of
             Inl e \<Rightarrow> Inl e
           | Inr (r2, P2) \<Rightarrow> Inr (r1 @ r2, P2))) = Inr (r, P')"
    by (simp only: pick_each_append)
  then obtain rb Pb r2 where
    b: "pick_each proto reg before {} = Inr (rb, Pb)"
    and rest: "pick_each proto reg (root # after) Pb = Inr (r2, P')" and r: "r = rb @ r2"
    by (cases "pick_each proto reg before {}"; cases "pick_each proto reg (root # after) (snd (projr (pick_each proto reg before {})))")
       (auto simp del: pick_each.simps split: prod.splits)
  from rest obtain rk Pk ra where
    k: "pick_target_and_dependencies proto reg root Pb = Inr (rk, Pk)"
    and a: "pick_each proto reg after Pk = Inr (ra, P')" and r2: "r2 = rk @ ra"
    by (rule pick_each_cases)
  from pick_names(2)[OF keyed b] have Pb: "Pb = set (map name rb)" by simp
  have early: "x \<notin> Pb" if "(x, m) \<in> (dep_rel_with proto reg)\<^sup>*" for x
  proof
    assume "x \<in> Pb"
    with Pb obtain t where t: "t \<in> set rb" "name t = x" by auto
    from pick_reach(2)[OF keyed b t(1)] t(2) obtain n where
      n: "n \<in> set before" "(n, x) \<in> (dep_rel_with proto reg)\<^sup>*" by blast
    from n(2) that have "(n, m) \<in> (dep_rel_with proto reg)\<^sup>*" by (rule rtrancl_trans)
    with n(1) first show False by blast
  qed
  from early[OF reach] have root: "root \<notin> Pb" .
  have m: "m \<notin> Pb" by (rule early) simp
  from k root obtain t rd where
    t: "get_property proto reg root = Target_value t" and rk: "rk = rd @ [t]"
    by (cases rule: pick_cases) auto
  from target_value_name[OF keyed t] have name: "name t = root" .
  have closed_b:
    "\<forall>x \<in> Pb. \<forall>t. get_property proto reg x = Target_value t \<longrightarrow> set (depends t) \<subseteq> Pb"
    using pick_keeps_closed[OF b] by simp
  have "m \<in> Pk"
    using pick_keeps_closed[OF pick_each_single[OF k] closed_b] pick_includes(1)[OF k] reach
    by (rule closed_reaches)
  moreover from pick_names(1)[OF keyed k] have Pk: "Pk = Pb \<union> set (map name rk)" by simp
  ultimately have in_k: "m \<in> set (map name rk)" using m by blast
  from pick_names(2)[OF keyed p] have "distinct (map name r)" by simp
  with r r2 in_k have not_a: "m \<notin> set (map name ra)" by auto
  have 1: "r = rb @ rd @ t # ra" using r r2 rk by simp
  have 2: "m \<in> set (map name (rd @ [t]))" using in_k rk by simp
  have 3: "m \<notin> set (map name rb)" using m Pb by simp
  have 4: "pick_each proto reg before {} = Inr (rb, set (map name rb))" using b Pb by simp
  have 5: "pick_target_and_dependencies proto reg root (set (map name rb))
          = Inr (rd @ [t], set (map name (rb @ rd @ [t])))"
    using k Pk Pb rk by (simp add: Un_commute)
  from 1 name 2 3 not_a 4 5 show ?thesis by blast
qed

section \<open>The order of the keys\<close>

text \<open>
  What \<^verbatim>\<open>Object.keys(all_targets)\<close> gives: the names that are array indices first, in
  ascending numeric order, then the other names in the order the registry holds them,
  which is the order of their first registration, since \<^verbatim>\<open>all_targets[rtn.name] = rtn\<close>
  appends a name that is new and leaves a name that is present where it is.
\<close>

lemma object_keys_indices_ascending:
  "sorted (map decimal_value (filter is_array_index (object_keys reg)))"
  by (simp add: object_keys_def filter_sort)

lemma object_keys_others_in_registry_order:
  "filter (\<lambda>key. \<not> is_array_index key) (object_keys reg)
     = filter (\<lambda>key. \<not> is_array_index key) (map fst reg)"
  by (simp add: object_keys_def filter_sort)

lemma object_keys_indices_first:
  "object_keys reg = filter is_array_index (object_keys reg)
     @ filter (\<lambda>key. \<not> is_array_index key) (object_keys reg)"
  by (simp add: object_keys_def filter_sort)

lemma update_keys:
  "map fst (AList.update k v reg) = (if k \<in> fst ` set reg then map fst reg else map fst reg @ [k])"
  by (induction reg) auto

lemma target_key_order:
  "map fst (all_targets (snd (target (Some args) s))) =
     (if given_name args = ''__proto__'' \<or> given_name args \<in> fst ` set (all_targets s)
      then map fst (all_targets s) else map fst (all_targets s) @ [given_name args])"
  by (simp add: target_def Let_def update_keys)

section \<open>The examples, evaluated\<close>

lemmas registering = register_all_def target_def Let_def plain_def fresh_def plain_target_def

lemmas picking = required_def required_with_def selected_def object_keys_def is_array_index_def
  is_digit_def pick_target_and_dependencies.simps get_property_def object_prototype_names_def
  target_property_names_def

lemma two_targets_registry:
  "all_targets two_targets = [(''A'', plain_target ''A'' []), (''B'', plain_target ''B'' [''A''])]"
  by (simp add: two_targets_def registering)








lemma dangling_registry: "all_targets dangling = [(''A'', plain_target ''A'' [''X''])]"
  by (simp add: dangling_def registering)

lemmas running = evaluate_def target_names_or_default_def run_target_def enter_target_path_def
  leave_target_path_def on_fulfilled_def on_rejected_def truthy_target_path_def empty_options_def
  empty_action_def join_dir_def invoked_since_def Let_def


lemma two_targets_state:
  "two_targets = \<lparr>all_targets = [(''A'', plain_target ''A'' []), (''B'', plain_target ''B'' [''A''])],
     prototype = None, cwd = ''/work'', invoked = []\<rparr>"
  by (simp add: two_targets_def registering)



lemma crossing_registry:
  "all_targets crossing = [(''A'', plain_target ''A'' [''X'', ''S'']), (''B'', plain_target ''B'' [''S'']),
     (''X'', plain_target ''X'' []), (''S'', plain_target ''S'' [])]"
  by (simp add: crossing_def registering)

lemma in_sub_state:
  "in_sub a = \<lparr>all_targets = [(''A'', \<lparr>name = ''A'', depends = [], action = a,
       options = \<lparr>target_path = Some ''sub'', interactive = None\<rparr>\<rparr>)],
     prototype = None, cwd = ''/work'', invoked = []\<rparr>"
  by (simp add: in_sub_def registering)









lemma crossing_state:
  "crossing = \<lparr>all_targets = [(''A'', plain_target ''A'' [''X'', ''S'']), (''B'', plain_target ''B'' [''S'']),
       (''X'', plain_target ''X'' []), (''S'', plain_target ''S'' [])],
     prototype = None, cwd = ''/work'', invoked = []\<rparr>"
  by (simp add: crossing_def registering)

lemma crossing_required:
  "required_with (prototype crossing) (all_targets crossing) [''B'', ''A'']
     = Inr [plain_target ''X'' [], plain_target ''S'' [], plain_target ''A'' [''X'', ''S''],
            plain_target ''B'' [''S'']]"
  by (simp add: crossing_state picking plain_target_def)

lemma crossing_selected: "selected (all_targets crossing) [''B'', ''A''] = [] @ ''A'' # [''B'']"
  by (simp add: crossing_state picking)

lemma crossing_edge:
  "(''A'', ''S'') \<in> (dep_rel_with (prototype crossing) (all_targets crossing))\<^sup>*"
  by (auto intro!: r_into_rtrancl simp: dep_rel_with_def crossing_state get_property_def
      plain_target_def)
section \<open>Dependencies before dependents\<close>




section \<open>Requested names that are not registered\<close>

text \<open>
  Claim C2, as the code has it. \<^verbatim>\<open>evaluate\<close> never hands a requested name to the picker:
  it filters the keys of the registry by the requested names, so a requested name that is
  no key is dropped without an error. The call does what it would do for the registered
  names among the requested ones; when none of them is registered nothing is picked, no
  action runs and the call fulfils with \<^verbatim>\<open>undefined\<close>, the state unchanged.
\<close>

theorem unknown_names_are_dropped:
  assumes "n \<in> set target_names" and "map_of (all_targets s) n = None"
  shows "evaluate chdir (Some target_names) s =
     (let known = filter (\<lambda>key. map_of (all_targets s) key \<noteq> None) target_names
      in if known = [] then (Fulfilled None, s) else evaluate chdir (Some known) s)"
proof -
  let ?reg = "all_targets s"
  let ?known = "filter (\<lambda>key. map_of ?reg key \<noteq> None) target_names"
  from assms(1) have ne: "target_names \<noteq> []" by auto
  have keys: "set ?known = set target_names \<inter> fst ` set ?reg"
    by (auto simp: dom_map_of_conv_image_fst[symmetric])
  show ?thesis
  proof (cases "?known = []")
    case True
    then have "set ?known = set []" by (rule arg_cong)
    with keys have "set target_names \<inter> fst ` set ?reg = {}" by simp
    from evaluate_nothing_selected[OF selected_none[OF ne this]] True show ?thesis by simp
  next
    case False
    from keys have "set target_names \<inter> fst ` set ?reg = set ?known \<inter> fst ` set ?reg" by blast
    from evaluate_selected[OF selected_cong[OF ne False this]] False show ?thesis by simp
  qed
qed

text \<open>
  The statement for the request \<open>X\<close>, \<open>B\<close> where only \<open>A\<close> and \<open>B\<close> are registered.
\<close>

theorem unknown_names_are_dropped_witness:
  "''X'' \<in> set [''X'', ''B''] \<and> map_of (all_targets two_targets) ''X'' = None
   \<and> evaluate join_dir (Some [''X'', ''B'']) two_targets
       = evaluate join_dir (Some [''B'']) two_targets"
proof -
  have a: "''X'' \<in> set [''X'', ''B'']" by simp
  have b: "map_of (all_targets two_targets) ''X'' = None" by (simp add: two_targets_registry)
  have "filter (\<lambda>key. map_of (all_targets two_targets) key \<noteq> None) [''X'', ''B''] = [''B'']"
    by (simp add: two_targets_registry)
  with unknown_names_are_dropped[OF a b, of join_dir]
  have "evaluate join_dir (Some [''X'', ''B'']) two_targets
       = evaluate join_dir (Some [''B'']) two_targets"
    by (simp add: Let_def)
  with a b show ?thesis by blast
qed

text \<open>
  The claim as written, a rejection that names the unknown root, fails for the request
  \<open>X\<close> alone: the call fulfils.
\<close>

theorem unknown_root_counterexample:
  "map_of (all_targets two_targets) ''X'' = None
   \<and> evaluate join_dir (Some [''X'']) two_targets = (Fulfilled None, two_targets)"
  by (simp add: two_targets_state picking running)

section \<open>The working directory after a failed action\<close>

text \<open>
  Claim C3 asks that the working directory be put back after the action settles, an action
  that fails synchronously included. One target \<open>A\<close> with \<^verbatim>\<open>target_path: "sub"\<close> is
  evaluated from \<^verbatim>\<open>/work\<close>. When its action throws, \<^verbatim>\<open>evaluate\<close> rejects with the
  action's error and the working directory is still \<^verbatim>\<open>/work/sub\<close>. When instead the
  action returns a promise that rejects with the same error, the directory is back at
  \<^verbatim>\<open>/work\<close>.
\<close>

theorem thrown_action_leaves_directory:
  "cwd (in_sub throwing) = ''/work''
   \<and> evaluate join_dir (Some [''A'']) (in_sub throwing)
       = (Rejected (Error ''boom''), (in_sub throwing)\<lparr>cwd := ''/work/sub'', invoked := [(''A'', ''/work/sub'')]\<rparr>)
   \<and> evaluate join_dir (Some [''A'']) (in_sub rejecting)
       = (Rejected (Error ''boom''), (in_sub rejecting)\<lparr>cwd := ''/work'', invoked := [(''A'', ''/work/sub'')]\<rparr>)"
  by (simp add: in_sub_state picking running throwing_def rejecting_def)

section \<open>The first failure ends the chain\<close>



section \<open>Each target once\<close>



section \<open>A dependency that holds no target rejects before anything runs\<close>




text \<open>
  A name that is no key of the registry can still hold a target: after a registration
  under \<^verbatim>\<open>__proto__\<close> the lookup \<^verbatim>\<open>all_targets["__proto__"]\<close> gives that record, and a
  target that depends on \<^verbatim>\<open>__proto__\<close> is resolved and run after it, without an error.
\<close>

lemma prototype_dependency_resolves:
  "map_of (all_targets replaced) ''__proto__'' = None
   \<and> fst (evaluate join_dir (Some [''A'']) replaced)
       = Fulfilled (Some (plain_target ''A'' [''__proto__'']))
   \<and> invoked_since replaced (snd (evaluate join_dir (Some [''A'']) replaced))
       = [''__proto__'', ''A'']"
  by (simp add: replaced_def registering picking running prototype_target_def)
section \<open>No names requested: every registered target\<close>




section \<open>The order in which roots are visited\<close>

text \<open>
  Claim C8, as the code has it. The roots of \<^verbatim>\<open>evaluate(rootNames)\<close> are the keys of the
  registry that occur among the requested names, visited in the order of
  \<^verbatim>\<open>Object.keys(all_targets)\<close>: the names that are array indices in ascending numeric
  order, then the other names in the order the registry holds them, which is the order of
  their first registration (\<^verbatim>\<open>target()\<close> appends a name that is new and leaves a name that
  is present in its place). The order and the repetitions of the requested names play no
  part: two non-empty requests with the same set of names are evaluated alike. Let the
  roots in key order be \<open>before\<close>, then \<open>root\<close>, then \<open>after\<close>, and let \<open>root\<close> be the
  first of them from which \<open>m\<close> can be reached along \<^verbatim>\<open>depends\<close>. Then the result is
  what the roots of \<open>before\<close> give, followed by what the visit of \<open>root\<close> adds to it,
  ending with \<open>root\<close> itself, followed by the rest; and \<open>m\<close> stands in the part added by
  \<open>root\<close> and nowhere else, whichever roots of \<open>after\<close> reach it as well.
\<close>

theorem roots_in_key_order:
  assumes "keyed_by_name (all_targets s)" and "target_names \<noteq> []"
    and "required_with (prototype s) (all_targets s) target_names = Inr r"
    and "selected (all_targets s) target_names = before @ root # after"
    and "(root, m) \<in> (dep_rel_with (prototype s) (all_targets s))\<^sup>*"
    and "\<forall>b \<in> set before. (b, m) \<notin> (dep_rel_with (prototype s) (all_targets s))\<^sup>*"
  shows "before @ root # after
       = filter (\<lambda>key. key \<in> set target_names) (object_keys (all_targets s))
     \<and> (others \<noteq> [] \<and> set others = set target_names
          \<longrightarrow> evaluate chdir (Some others) s = evaluate chdir (Some target_names) s)
     \<and> (\<exists>rb rd t ra.
          r = rb @ rd @ t # ra \<and> name t = root
          \<and> m \<in> set (map name (rd @ [t]))
          \<and> m \<notin> set (map name rb) \<and> m \<notin> set (map name ra)
          \<and> pick_each (prototype s) (all_targets s) before {} = Inr (rb, set (map name rb))
          \<and> pick_target_and_dependencies (prototype s) (all_targets s) root (set (map name rb))
              = Inr (rd @ [t], set (map name (rb @ rd @ [t]))))
     \<and> sorted (map decimal_value (filter is_array_index (object_keys (all_targets s))))
     \<and> object_keys (all_targets s)
         = filter is_array_index (object_keys (all_targets s))
           @ filter (\<lambda>key. \<not> is_array_index key) (map fst (all_targets s))
     \<and> map fst (all_targets (snd (target (Some args) s)))
         = (if given_name args = ''__proto__'' \<or> given_name args \<in> fst ` set (all_targets s)
            then map fst (all_targets s) else map fst (all_targets s) @ [given_name args])"
proof -
  let ?proto = "prototype s" and ?reg = "all_targets s"
  from assms(2,4) have roots: "before @ root # after
       = filter (\<lambda>key. key \<in> set target_names) (object_keys ?reg)"
    by (simp add: selected_def)
  have alike: "evaluate chdir (Some others) s = evaluate chdir (Some target_names) s"
    if "others \<noteq> []" "set others = set target_names"
    using that assms(2) by (intro evaluate_selected selected_cong) simp_all
  from required_with_pick[OF assms(3)] assms(4) obtain P' where
    "pick_each ?proto ?reg (before @ root # after) {} = Inr (r, P')" by auto
  from root_segment[OF assms(1) this assms(5,6)]
  have segment: "\<exists>rb rd t ra.
          r = rb @ rd @ t # ra \<and> name t = root
          \<and> m \<in> set (map name (rd @ [t]))
          \<and> m \<notin> set (map name rb) \<and> m \<notin> set (map name ra)
          \<and> pick_each ?proto ?reg before {} = Inr (rb, set (map name rb))
          \<and> pick_target_and_dependencies ?proto ?reg root (set (map name rb))
              = Inr (rd @ [t], set (map name (rb @ rd @ [t])))" .
  have ascending: "sorted (map decimal_value (filter is_array_index (object_keys ?reg)))"
    by (rule object_keys_indices_ascending)
  have keys: "object_keys ?reg = filter is_array_index (object_keys ?reg)
           @ filter (\<lambda>key. \<not> is_array_index key) (map fst ?reg)"
    using object_keys_indices_first[of ?reg] object_keys_others_in_registry_order[of ?reg]
    by simp
  have registration: "map fst (all_targets (snd (target (Some args) s)))
         = (if given_name args = ''__proto__'' \<or> given_name args \<in> fst ` set ?reg
            then map fst ?reg else map fst ?reg @ [given_name args])"
    by (rule target_key_order)
  from roots alike segment ascending keys registration show ?thesis by blast
qed

text \<open>
  The statement where \<open>A\<close>, which depends on \<open>X\<close> and \<open>S\<close>, was registered before
  \<open>B\<close>, which depends on \<open>S\<close>, and the request is \<open>B\<close>, \<open>A\<close>: the roots are \<open>A\<close>,
  \<open>B\<close>, and \<open>S\<close> stands in the part of \<open>A\<close>.
\<close>

theorem roots_in_key_order_witness:
  "keyed_by_name (all_targets crossing) \<and> [''B'', ''A''] \<noteq> []
   \<and> required_with (prototype crossing) (all_targets crossing) [''B'', ''A'']
       = Inr [plain_target ''X'' [], plain_target ''S'' [], plain_target ''A'' [''X'', ''S''],
              plain_target ''B'' [''S'']]
   \<and> selected (all_targets crossing) [''B'', ''A''] = [] @ ''A'' # [''B'']
   \<and> (''A'', ''S'') \<in> (dep_rel_with (prototype crossing) (all_targets crossing))\<^sup>*
   \<and> [''A'', ''B'', ''A''] \<noteq> [] \<and> set [''A'', ''B'', ''A''] = set [''B'', ''A'']
   \<and> evaluate join_dir (Some [''A'', ''B'', ''A'']) crossing
       = evaluate join_dir (Some [''B'', ''A'']) crossing
   \<and> (\<exists>rb rd t ra.
         [plain_target ''X'' [], plain_target ''S'' [], plain_target ''A'' [''X'', ''S''],
          plain_target ''B'' [''S'']] = rb @ rd @ t # ra
         \<and> name t = ''A'' \<and> ''S'' \<in> set (map name (rd @ [t]))
         \<and> ''S'' \<notin> set (map name rb) \<and> ''S'' \<notin> set (map name ra)
         \<and> pick_each (prototype crossing) (all_targets crossing) [] {} = Inr (rb, set (map name rb)))"
proof -
  have k: "keyed_by_name (all_targets crossing)"
    by (simp add: crossing_state keyed_by_name_def plain_target_def)
  have a: "[''B'', ''A''] \<noteq> []" by simp
  have b: "[''A'', ''B'', ''A''] \<noteq> [] \<and> set [''A'', ''B'', ''A''] = set [''B'', ''A'']" by auto
  have f: "\<forall>b \<in> set []. (b, ''S'') \<notin> (dep_rel_with (prototype crossing) (all_targets crossing))\<^sup>*"
    by simp
  from roots_in_key_order[OF k a crossing_required crossing_selected crossing_edge f,
      of "[''A'', ''B'', ''A'']" join_dir] b
  have "evaluate join_dir (Some [''A'', ''B'', ''A'']) crossing
       = evaluate join_dir (Some [''B'', ''A'']) crossing
   \<and> (\<exists>rb rd t ra.
         [plain_target ''X'' [], plain_target ''S'' [], plain_target ''A'' [''X'', ''S''],
          plain_target ''B'' [''S'']] = rb @ rd @ t # ra
         \<and> name t = ''A'' \<and> ''S'' \<in> set (map name (rd @ [t]))
         \<and> ''S'' \<notin> set (map name rb) \<and> ''S'' \<notin> set (map name ra)
         \<and> pick_each (prototype crossing) (all_targets crossing) [] {} = Inr (rb, set (map name rb)))"
    by blast
  with k a crossing_required crossing_selected crossing_edge b show ?thesis by blast
qed

text \<open>
  The claim as written, roots visited in the order of the request, fails there: the request
  \<open>B\<close>, \<open>A\<close> is resolved to \<open>X\<close>, \<open>S\<close>, \<open>A\<close>, \<open>B\<close> and the actions run in that
  order, with the shared \<open>S\<close> at index 1 where the root \<open>A\<close> puts it, while visiting
  \<open>B\<close> and then \<open>A\<close> gives \<open>S\<close>, \<open>B\<close>, \<open>X\<close>, \<open>A\<close> with \<open>S\<close> at index 0.
\<close>

theorem rootnames_order_counterexample:
  "map_sum id (map name) (required_with (prototype crossing) (all_targets crossing) [''B'', ''A''])
     = Inr [''X'', ''S'', ''A'', ''B'']
   \<and> invoked_since crossing (snd (evaluate join_dir (Some [''B'', ''A'']) crossing))
     = [''X'', ''S'', ''A'', ''B'']
   \<and> map_sum id (map name \<circ> fst)
       (pick_each (prototype crossing) (all_targets crossing) [''B'', ''A''] {})
     = Inr [''S'', ''B'', ''X'', ''A'']"
  by (simp add: crossing_state picking running plain_target_def)

text \<open>
  Names that are array indices come first among the keys, by value: after the
  registrations \<open>b\<close>, \<open>10\<close>, \<open>a\<close>, \<open>2\<close>, in this order, the keys are \<open>2\<close>,
  \<open>10\<close>, \<open>b\<close>, \<open>a\<close>, and that is the order in which \<^verbatim>\<open>evaluate()\<close> runs them.
\<close>

lemma numbered_keys:
  "object_keys (all_targets numbered) = [''2'', ''10'', ''b'', ''a'']
   \<and> invoked_since numbered (snd (evaluate join_dir None numbered)) = [''2'', ''10'', ''b'', ''a'']"
  by (simp add: numbered_def registering picking running decimal_value_def)
section \<open>Registration overwrites\<close>



section \<open>Evaluation leaves the registry alone\<close>


end
